theory Spec2Isabelle
  imports Main "HOL-Library.Sublist"
begin

section \<open>Strings of the front end\<close>

text \<open>
  A JavaScript string is modelled as a \<^typ>\<open>string\<close>; a \<^typ>\<open>char\<close> stands for one code
  unit below 256. \<open>is_space\<close> is the class \<^verbatim>\<open>\s\<close> of a regular expression and the set
  that \<^verbatim>\<open>String.prototype.trim\<close> strips, restricted to that range: tab, line feed,
  vertical tab, form feed, carriage return, space and the no-break space.
  \<open>is_word\<close> is the class \<^verbatim>\<open>\w\<close>, which also decides \<^verbatim>\<open>\b\<close>.
\<close>

definition is_space :: "char \<Rightarrow> bool" where
  "is_space c = (c \<in> set [CHR 0x09, CHR 0x0A, CHR 0x0B, CHR 0x0C, CHR 0x0D, CHR 0x20, CHR 0xA0])"

definition is_alpha :: "char \<Rightarrow> bool" where
  "is_alpha c = (let n = (of_char c :: nat) in (97 \<le> n \<and> n \<le> 122) \<or> (65 \<le> n \<and> n \<le> 90))"

definition is_word :: "char \<Rightarrow> bool" where
  "is_word c = (is_alpha c \<or> (48 \<le> (of_char c :: nat) \<and> (of_char c :: nat) \<le> 57) \<or> c = CHR ''_'')"

definition trim :: "string \<Rightarrow> string" where
  "trim s = rev (dropWhile is_space (rev (dropWhile is_space s)))"

definition startsWith :: "string \<Rightarrow> string \<Rightarrow> bool" where
  "startsWith s p = prefix p s"

section \<open>Snapshot history (App.tsx)\<close>

text \<open>
  The component state that the history handlers read and write. \<open>editableCode\<close> is
  \<open>None\<close> when the handler stored \<^verbatim>\<open>undefined\<close>, which is what an array read out of
  range gives in JavaScript.
\<close>

record app_state =
  generatedCode :: string
  editableCode :: "string option"
  history :: "string list"
  historyIndex :: int

definition initial_state :: app_state where
  "initial_state = \<lparr>generatedCode = [], editableCode = Some [], history = [], historyIndex = - 1\<rparr>"

definition js_index :: "'a list \<Rightarrow> int \<Rightarrow> 'a option" where
  "js_index xs i = (if 0 \<le> i \<and> i < int (length xs) then Some (xs ! nat i) else None)"

text \<open>\<^verbatim>\<open>prev.slice(0, n)\<close> for \<open>n \<ge> 0\<close>.\<close>

definition slice0 :: "'a list \<Rightarrow> int \<Rightarrow> 'a list" where
  "slice0 xs n = take (nat n) xs"

definition commitToHistory :: "string \<Rightarrow> app_state \<Rightarrow> app_state" where
  "commitToHistory code st =
     (let prev = history st;
          base = (if historyIndex st \<ge> 0 \<and> historyIndex st < int (length prev)
                  then slice0 prev (historyIndex st + 1) else prev);
          next = base @ [code];
          newIndex = int (length next) - 1
      in st\<lparr>history := next, historyIndex := newIndex\<rparr>)"

definition handleUndo :: "app_state \<Rightarrow> app_state" where
  "handleUndo st =
     (let idx = historyIndex st in
      if idx \<le> 0 then st
      else let newIdx = idx - 1
           in st\<lparr>editableCode := js_index (history st) newIdx, historyIndex := newIdx\<rparr>)"

definition handleRedo :: "app_state \<Rightarrow> app_state" where
  "handleRedo st =
     (let idx = historyIndex st in
      if idx < 0 \<or> idx \<ge> int (length (history st)) - 1 then st
      else let newIdx = idx + 1
           in st\<lparr>editableCode := js_index (history st) newIdx, historyIndex := newIdx\<rparr>)"

text \<open>
  \<^verbatim>\<open>handleCommitSnapshot\<close> returns early on blank text. On \<^verbatim>\<open>undefined\<close> the call of
  \<^verbatim>\<open>trim\<close> throws inside the event handler and no state is written.
\<close>

definition handleCommitSnapshot :: "app_state \<Rightarrow> app_state" where
  "handleCommitSnapshot st =
     (case editableCode st of
        None \<Rightarrow> st
      | Some e \<Rightarrow> if trim e = [] then st else commitToHistory e st)"

text \<open>The branch of \<^verbatim>\<open>handleGenerate\<close> that runs once the response has been read.\<close>

definition acceptGenerated :: "string \<Rightarrow> app_state \<Rightarrow> app_state" where
  "acceptGenerated code st =
     (if code \<noteq> [] then commitToHistory code (st\<lparr>generatedCode := code, editableCode := Some code\<rparr>)
      else st\<lparr>generatedCode := [], editableCode := Some []\<rparr>)"

text \<open>The editor's \<^verbatim>\<open>onChange\<close>.\<close>

definition editCode :: "string \<Rightarrow> app_state \<Rightarrow> app_state" where
  "editCode v st = st\<lparr>editableCode := Some v\<rparr>"

datatype history_op = Push string | Generated string | Commit | Undo | Redo | Edit string

fun apply_op :: "history_op \<Rightarrow> app_state \<Rightarrow> app_state" where
  "apply_op (Push c) st = commitToHistory c st"
| "apply_op (Generated c) st = acceptGenerated c st"
| "apply_op Commit st = handleCommitSnapshot st"
| "apply_op Undo st = handleUndo st"
| "apply_op Redo st = handleRedo st"
| "apply_op (Edit v) st = editCode v st"

definition run_ops :: "history_op list \<Rightarrow> app_state \<Rightarrow> app_state" where
  "run_ops ops st = fold apply_op ops st"

definition history_inv :: "app_state \<Rightarrow> bool" where
  "history_inv st =
     (- 1 \<le> historyIndex st \<and> historyIndex st < int (length (history st)) \<and>
      (length (history st) > 0 \<longrightarrow> 0 \<le> historyIndex st))"

section \<open>Policy validator (validate.js)\<close>

text \<open>
  The syntax tree that \<^verbatim>\<open>@babel/parser\<close> hands to \<^verbatim>\<open>@babel/traverse\<close>. The three node
  types with a visitor keep the fields the visitors read; every other node type is a
  \<open>Node\<close> with its type and its children in visiting order. A string literal keeps its
  value, which the import visitor reads through \<^verbatim>\<open>source.value\<close>.
\<close>

datatype node =
    Identifier string
  | StringLiteral string
  | MemberExpression node node bool
  | ImportDeclaration "node list" node
  | Node string "node list"

record verdict =
  safe :: bool
  reasons :: "string list"

datatype error = ParseError string

definition forbiddenIdentifiers :: "string set" where
  "forbiddenIdentifiers = {''eval'', ''Function'', ''setTimeout'', ''setInterval''}"

definition forbiddenMembers :: "string list" where
  "forbiddenMembers =
     [''dangerouslySetInnerHTML'', ''localStorage'', ''sessionStorage'', ''window'', ''document'']"

text \<open>\<^verbatim>\<open>node.name\<close> and \<^verbatim>\<open>node.value\<close>: \<open>None\<close> is \<^verbatim>\<open>undefined\<close>.\<close>

fun name_of :: "node \<Rightarrow> string option" where
  "name_of (Identifier n) = Some n"
| "name_of _ = None"

fun value_of :: "node \<Rightarrow> string option" where
  "value_of (StringLiteral v) = Some v"
| "value_of _ = None"

definition push_reason :: "string \<Rightarrow> verdict \<Rightarrow> verdict" where
  "push_reason r v = \<lparr>safe = False, reasons = reasons v @ [r]\<rparr>"

text \<open>The visitor object: what runs when the traversal enters a node.\<close>

fun enter :: "node \<Rightarrow> verdict \<Rightarrow> verdict" where
  "enter (Identifier n) v =
     (if n \<in> forbiddenIdentifiers then push_reason (''Forbidden identifier: '' @ n) v else v)"
| "enter (MemberExpression obj prop computed) v =
     (case name_of prop of
        Some name \<Rightarrow>
          if name \<in> set forbiddenMembers then push_reason (''Forbidden member: '' @ name) v else v
      | None \<Rightarrow> v)"
| "enter (ImportDeclaration specifiers source) v =
     (case value_of source of
        Some s \<Rightarrow> if s \<in> set [''react''] then v else push_reason (''Forbidden import: '' @ s) v
      | None \<Rightarrow> push_reason ''Forbidden import: undefined'' v)"
| "enter _ v = v"

fun traverse :: "node \<Rightarrow> verdict \<Rightarrow> verdict" where
  "traverse (Identifier n) v = enter (Identifier n) v"
| "traverse (StringLiteral s) v = enter (StringLiteral s) v"
| "traverse (MemberExpression obj prop computed) v =
     traverse prop (traverse obj (enter (MemberExpression obj prop computed) v))"
| "traverse (ImportDeclaration specifiers source) v =
     traverse source (fold traverse specifiers (enter (ImportDeclaration specifiers source) v))"
| "traverse (Node t cs) v = fold traverse cs (enter (Node t cs) v)"

text \<open>
  \<^verbatim>\<open>parser.parse\<close> is a library call: it is a parameter of the model and either throws
  (\<open>Inl\<close>) or returns the tree. \<^verbatim>\<open>validate\<close> has no handler, so what the parser throws
  leaves \<^verbatim>\<open>validate\<close> as it is.
\<close>

definition validate :: "(string \<Rightarrow> error + node) \<Rightarrow> string \<Rightarrow> error + verdict" where
  "validate parse code =
     (case parse code of
        Inl e \<Rightarrow> Inl e
      | Inr ast \<Rightarrow> Inr (traverse ast \<lparr>safe = True, reasons = []\<rparr>))"




text \<open>
  Sample inputs with the tree the parser builds for them: a file holding a program
  holding one expression statement. \<open>fixture_parse\<close> stands in for the parser on these
  sources only, and throws on every other text.
\<close>

definition dquote :: string where
  "dquote = [CHR 0x22]"

definition expression_program :: "node \<Rightarrow> node" where
  "expression_program e = Node ''File'' [Node ''Program'' [Node ''ExpressionStatement'' [e]]]"

definition fixture_parse :: "string \<Rightarrow> error + node" where
  "fixture_parse code =
     (if code = ''eval(x)'' then
        Inr (expression_program (Node ''CallExpression'' [Identifier ''eval'', Identifier ''x'']))
      else if code = ''obj[document]'' then
        Inr (expression_program (MemberExpression (Identifier ''obj'') (Identifier ''document'') True))
      else if code = (''obj['' @ dquote @ ''localStorage'' @ dquote @ '']'') then
        Inr (expression_program
               (MemberExpression (Identifier ''obj'') (StringLiteral ''localStorage'') True))
      else if code = ''window.location'' then
        Inr (expression_program
               (MemberExpression (Identifier ''window'') (Identifier ''location'') False))
      else if code = ''document.write'' then
        Inr (expression_program
               (MemberExpression (Identifier ''document'') (Identifier ''write'') False))
      else if code = ''x.window'' then
        Inr (expression_program (MemberExpression (Identifier ''x'') (Identifier ''window'') False))
      else Inl (ParseError code))"

section \<open>Normalisation of generated code (App.tsx)\<close>

subsection \<open>Lines\<close>

text \<open>\<^verbatim>\<open>split("\n")\<close> and \<^verbatim>\<open>join("\n")\<close>. Splitting never gives the empty array.\<close>

definition newline :: char where
  "newline = CHR 0x0A"

fun split_nl :: "string \<Rightarrow> string list" where
  "split_nl [] = [[]]"
| "split_nl (c # cs) =
     (if c = newline then [] # split_nl cs
      else (case split_nl cs of
              [] \<Rightarrow> [[c]]
            | l # ls \<Rightarrow> (c # l) # ls))"

fun join_nl :: "string list \<Rightarrow> string" where
  "join_nl [] = []"
| "join_nl [l] = l"
| "join_nl (l # ls) = l @ newline # join_nl ls"

text \<open>The callback of \<^verbatim>\<open>filter\<close>: which lines stay.\<close>

definition keep_line :: "string \<Rightarrow> bool" where
  "keep_line line =
     (let trimmed = trim line in
      if startsWith trimmed ''```'' then False
      else if startsWith trimmed ''import '' then False
      else True)"

definition strip_lines :: "string \<Rightarrow> string" where
  "strip_lines raw = join_nl (filter keep_line (split_nl raw))"

subsection \<open>The regular expressions\<close>

text \<open>
  The patterns of the source are sequences of these items: a literal, \<^verbatim>\<open>\s+\<close>, \<^verbatim>\<open>\s*\<close>,
  \<^verbatim>\<open>\b\<close> and a negative look-behind for a literal. \<open>re_match\<close> matches a pattern at
  the current position and returns the text after the match; \<open>pre\<close> is the text before
  the position, reversed. The quantifiers take the longest run of white space. In every
  pattern of the source the item after a quantifier is a literal that starts with a
  character that is not white space, or the pattern ends, so giving characters back can
  never turn a failure into a match and the longest run is the only candidate.
\<close>

datatype re_item = Lit string | Spaces1 | Spaces0 | WordBoundary | NotBehind string

definition word_before :: "string \<Rightarrow> bool" where
  "word_before pre = (case pre of [] \<Rightarrow> False | c # _ \<Rightarrow> is_word c)"

definition word_after :: "string \<Rightarrow> bool" where
  "word_after s = (case s of [] \<Rightarrow> False | c # _ \<Rightarrow> is_word c)"

fun re_match :: "re_item list \<Rightarrow> string \<Rightarrow> string \<Rightarrow> string option" where
  "re_match [] pre s = Some s"
| "re_match (Lit l # r) pre s =
     (if prefix l s then re_match r (rev l @ pre) (drop (length l) s) else None)"
| "re_match (Spaces1 # r) pre s =
     (case s of
        [] \<Rightarrow> None
      | c # cs \<Rightarrow>
          if is_space c
          then re_match r (rev (takeWhile is_space s) @ pre) (dropWhile is_space s)
          else None)"
| "re_match (Spaces0 # r) pre s =
     re_match r (rev (takeWhile is_space s) @ pre) (dropWhile is_space s)"
| "re_match (WordBoundary # r) pre s =
     (if word_before pre \<noteq> word_after s then re_match r pre s else None)"
| "re_match (NotBehind l # r) pre s =
     (if prefix (rev l) pre then None else re_match r pre s)"

text \<open>\<^verbatim>\<open>code.replace(re, rep)\<close> without the g flag: the leftmost match only.\<close>

fun replace_first :: "re_item list \<Rightarrow> string \<Rightarrow> string \<Rightarrow> string \<Rightarrow> string" where
  "replace_first re rep pre [] = (case re_match re pre [] of Some _ \<Rightarrow> rep | None \<Rightarrow> [])"
| "replace_first re rep pre (c # cs) =
     (case re_match re pre (c # cs) of
        Some rest \<Rightarrow> rep @ rest
      | None \<Rightarrow> c # replace_first re rep (c # pre) cs)"

text \<open>
  \<^verbatim>\<open>code.replace(re, rep)\<close> with the g flag: matches are taken from left to right and
  do not overlap; after an empty match the scan moves on by one character.
\<close>

function replace_all :: "re_item list \<Rightarrow> string \<Rightarrow> string \<Rightarrow> string \<Rightarrow> string" where
  "replace_all re rep pre [] = (case re_match re pre [] of Some _ \<Rightarrow> rep | None \<Rightarrow> [])"
| "replace_all re rep pre (c # cs) =
     (case re_match re pre (c # cs) of
        Some rest \<Rightarrow>
          if length rest < length (c # cs)
          then rep @ replace_all re rep
                       (rev (take (length (c # cs) - length rest) (c # cs)) @ pre) rest
          else rep @ c # replace_all re rep (c # pre) cs
      | None \<Rightarrow> c # replace_all re rep (c # pre) cs)"
  by pat_completeness auto
termination
  by (relation "measure (\<lambda>(re, rep, pre, s). length s)") auto

definition re_export_component :: "re_item list" where
  "re_export_component =
     [Lit ''export'', Spaces1, Lit ''default'', Spaces1, Lit ''function'', Spaces1,
      Lit ''GeneratedComponent'', Spaces0, Lit ''('']"

definition re_export_default :: "re_item list" where
  "re_export_default = [Lit ''export'', Spaces1, Lit ''default'', Spaces1]"

definition re_hook :: "string \<Rightarrow> re_item list" where
  "re_hook h = [NotBehind ''React.'', WordBoundary, Lit h, WordBoundary]"

definition qualify_hook :: "string \<Rightarrow> string \<Rightarrow> string" where
  "qualify_hook h code = replace_all (re_hook h) (''React.'' @ h) [] code"


definition strip_exports :: "string \<Rightarrow> string" where
  "strip_exports code =
     replace_all re_export_default [] []
       (replace_first re_export_component ''function GeneratedComponent('' [] code)"

definition qualify_hooks :: "string \<Rightarrow> string" where
  "qualify_hooks code =
     qualify_hook ''useReducer'' (qualify_hook ''useContext'' (qualify_hook ''useRef''
       (qualify_hook ''useMemo'' (qualify_hook ''useCallback'' (qualify_hook ''useEffect''
         (qualify_hook ''useState'' code))))))"

definition normalizeGeneratedCode :: "string \<Rightarrow> string" where
  "normalizeGeneratedCode raw =
     (if raw = [] then []
      else trim (qualify_hooks (strip_exports (strip_lines raw))))"

text \<open>\<^verbatim>\<open>previewCode\<close> of App.tsx: a function of \<^verbatim>\<open>editableCode\<close> alone.\<close>

definition previewCode :: "string \<Rightarrow> string" where
  "previewCode editable =
     (if trim editable = [] then []
      else trim (normalizeGeneratedCode editable @ newline # ''render(<GeneratedComponent />);''))"


section \<open>The variant with fence extraction and theme adaptation (src/unnamed/part_000)\<close>

text \<open>
  \<open>find_fence s\<close> splits \<open>s\<close> at its first triple backtick into the text before it and
  the text after it.
\<close>

definition fence :: string where
  "fence = ''```''"

fun find_fence :: "string \<Rightarrow> (string \<times> string) option" where
  "find_fence [] = None"
| "find_fence (c # cs) =
     (if prefix fence (c # cs) then Some ([], drop (length fence) (c # cs))
      else map_option (\<lambda>(before, after). (c # before, after)) (find_fence cs))"

text \<open>
  The first group of the leftmost match of
  \<^verbatim>\<open>/```(?:[a-zA-Z]+)?\s*([\s\S]*?)```/\<close>. The match starts at the first triple
  backtick, takes the longest run of letters and then of white space, and the lazy group
  ends at the next triple backtick. Letters and white space are not backticks: a shorter
  tag or run of white space, or a later start, finds a closing fence only where this
  attempt finds one, so when this attempt fails there is no match.
\<close>

definition fenceMatch :: "string \<Rightarrow> string option" where
  "fenceMatch code =
     (case find_fence code of
        None \<Rightarrow> None
      | Some (before, after) \<Rightarrow>
          (case find_fence (dropWhile is_space (dropWhile is_alpha after)) of
             None \<Rightarrow> None
           | Some (group1, rest) \<Rightarrow> Some group1))"

definition keep_line_fence :: "string \<Rightarrow> bool" where
  "keep_line_fence line =
     (let trimmed = trim line in
      if startsWith trimmed ''```'' then False
      else if startsWith trimmed ''import '' then False
      else if startsWith trimmed ''export {'' then False
      else True)"

definition normalizeGeneratedCode_fence :: "string \<Rightarrow> string" where
  "normalizeGeneratedCode_fence raw =
     (if raw = [] then []
      else let code = (case fenceMatch raw of Some group1 \<Rightarrow> group1 | None \<Rightarrow> raw)
           in trim (strip_exports (join_nl (filter keep_line_fence (split_nl code)))))"

definition adaptCodeForTheme :: "string \<Rightarrow> bool \<Rightarrow> string" where
  "adaptCodeForTheme code isDark =
     (if code = [] then code
      else if isDark then
        replace_all [Lit ''bg-white''] ''bg-slate-900'' []
          (replace_all [Lit ''text-black''] ''text-slate-50'' [] code)
      else
        replace_all [Lit ''bg-slate-900''] ''bg-slate-100'' []
          (replace_all [Lit ''text-white''] ''text-slate-900'' [] code))"

text \<open>\<^verbatim>\<open>previewCode\<close> of this variant: a function of \<^verbatim>\<open>editableCode\<close> and \<^verbatim>\<open>isDark\<close>.\<close>

definition previewCode_theme :: "string \<Rightarrow> bool \<Rightarrow> string" where
  "previewCode_theme editable isDark =
     (if trim editable = [] then []
      else adaptCodeForTheme (normalizeGeneratedCode_fence editable) isDark
             @ [newline, newline] @ ''<GeneratedComponent />'')"

section \<open>Auxiliary notions for the proofs\<close>

text \<open>
  Two texts are comparable when one is a prefix of the other. \<open>apart r q\<close>: no
  occurrence of \<open>q\<close> can start inside \<open>r\<close>. \<open>runs_into q p r\<close>: an occurrence of \<open>q\<close>
  could end inside an \<open>r\<close> that replaces \<open>p\<close> without having been there before.
\<close>

definition comparable :: "string \<Rightarrow> string \<Rightarrow> bool" where
  "comparable a b = (prefix a b \<or> prefix b a)"

definition apart :: "string \<Rightarrow> string \<Rightarrow> bool" where
  "apart r q = list_all (\<lambda>t. t = [] \<or> \<not> comparable t q) (suffixes r)"

definition runs_into :: "string \<Rightarrow> string \<Rightarrow> string \<Rightarrow> bool" where
  "runs_into q p r = list_ex (\<lambda>t. t \<noteq> [] \<and> comparable t r \<and> \<not> prefix t p) (suffixes q)"


text \<open>
  \<open>hook_at h pre s\<close>: the pattern of hook \<open>h\<close> matches at the position with \<open>pre\<close> before it
  (reversed) and \<open>s\<close> after it. \<open>bare h pre s\<close>: it matches at some position of \<open>s\<close>.
  \<open>insert_before m r pre s\<close> copies \<open>s\<close> and puts \<open>r\<close> before every position where \<open>m\<close>
  holds. \<open>behind_rel pre opre\<close> relates the text before a position of the input to the text
  before the same position of the output: both end in a word character or neither does,
  and where the input ends in a prefix of \<^verbatim>\<open>React.\<close> the output ends in it too.
\<close>

definition hook_at :: "string \<Rightarrow> string \<Rightarrow> string \<Rightarrow> bool" where
  "hook_at h pre s = (re_match (re_hook h) pre s \<noteq> None)"




definition hookish :: "string \<Rightarrow> bool" where
  "hookish h = (h \<noteq> [] \<and> list_all is_word h \<and> hd h \<notin> set ''React.'')"



section \<open>The validator reports every forbidden name\<close>










text \<open>
  C2. When the parser throws, \<^verbatim>\<open>validate\<close> ends with that error and returns no verdict,
  neither a safe nor an unsafe one.
\<close>

theorem validate_parse_error:
  assumes "parse code = Inl e"
  shows "validate parse code = Inl e \<and> (\<forall>v. validate parse code \<noteq> Inr v)"
  using assms by (simp add: validate_def)

theorem validate_parse_error_witness:
  "fixture_parse ''const ='' = Inl (ParseError ''const ='')
   \<and> validate fixture_parse ''const ='' = Inl (ParseError ''const ='')
   \<and> (\<forall>v. validate fixture_parse ''const ='' \<noteq> Inr v)"
proof -
  have p: "fixture_parse ''const ='' = Inl (ParseError ''const ='')"
    by (simp add: fixture_parse_def)
  from validate_parse_error[of fixture_parse "''const =''" "ParseError ''const =''"] p
  show ?thesis by simp
qed

section \<open>Which member accesses the validator reports\<close>









section \<open>Snapshot history: undo, redo and the cursor\<close>

lemma commit_inv: "history_inv (commitToHistory c st)"
  by (simp add: history_inv_def commitToHistory_def Let_def slice0_def)

lemma undo_inv: "history_inv st \<Longrightarrow> history_inv (handleUndo st)"
  by (auto simp add: history_inv_def handleUndo_def Let_def)

lemma redo_inv: "history_inv st \<Longrightarrow> history_inv (handleRedo st)"
  by (auto simp add: history_inv_def handleRedo_def Let_def)

lemma history_inv_update [simp]:
  "history_inv (st\<lparr>editableCode := e\<rparr>) = history_inv st"
  "history_inv (st\<lparr>generatedCode := g\<rparr>) = history_inv st"
  by (simp_all add: history_inv_def)

lemma apply_op_inv: "history_inv st \<Longrightarrow> history_inv (apply_op x st)"
  by (cases x)
    (simp_all add: commit_inv undo_inv redo_inv handleCommitSnapshot_def acceptGenerated_def
      editCode_def split: option.splits)

lemma run_ops_inv: "history_inv st \<Longrightarrow> history_inv (run_ops ops st)"
  unfolding run_ops_def by (induction ops arbitrary: st) (auto simp: apply_op_inv)



text \<open>
  C7. Undo with the cursor at 0 or below, and so on the empty log, changes nothing. When
  the cursor is above 0 and inside the log, as it is in every state reached from the empty
  history whose cursor is above 0, undo followed by redo puts the cursor back and loads the
  snapshot that was at the cursor before the undo.
\<close>

theorem undo_then_redo:
  "(historyIndex st \<le> 0 \<longrightarrow> handleUndo st = st)
   \<and> (history st = [] \<and> history_inv st \<longrightarrow> handleUndo st = st)
   \<and> (0 < historyIndex st \<and> historyIndex st < int (length (history st)) \<longrightarrow>
        handleRedo (handleUndo st)
          = st\<lparr>editableCode := Some (history st ! nat (historyIndex st))\<rparr>)
   \<and> (0 < historyIndex (run_ops ops initial_state) \<longrightarrow>
        handleRedo (handleUndo (run_ops ops initial_state))
          = (run_ops ops initial_state)
              \<lparr>editableCode := Some (history (run_ops ops initial_state)
                                         ! nat (historyIndex (run_ops ops initial_state)))\<rparr>)"
proof -
  have general: "(historyIndex s \<le> 0 \<longrightarrow> handleUndo s = s)
   \<and> (history s = [] \<and> history_inv s \<longrightarrow> handleUndo s = s)
   \<and> (0 < historyIndex s \<and> historyIndex s < int (length (history s)) \<longrightarrow>
        handleRedo (handleUndo s) = s\<lparr>editableCode := Some (history s ! nat (historyIndex s))\<rparr>)"
    for s
    by (auto simp add: handleUndo_def handleRedo_def Let_def js_index_def history_inv_def)
  have "history_inv (run_ops ops initial_state)"
    by (rule run_ops_inv) (simp add: history_inv_def initial_state_def)
  then have "historyIndex (run_ops ops initial_state)
      < int (length (history (run_ops ops initial_state)))"
    by (simp add: history_inv_def)
  with general[of st] general[of "run_ops ops initial_state"] show ?thesis by blast
qed

theorem undo_then_redo_witness:
  "historyIndex initial_state \<le> 0 \<and> history initial_state = [] \<and> history_inv initial_state
   \<and> handleUndo initial_state = initial_state
   \<and> 0 < historyIndex (run_ops [Push ''A'', Push ''B''] initial_state)
   \<and> historyIndex (run_ops [Push ''A'', Push ''B''] initial_state)
       < int (length (history (run_ops [Push ''A'', Push ''B''] initial_state)))
   \<and> editableCode (handleRedo (handleUndo (run_ops [Push ''A'', Push ''B''] initial_state)))
       = Some ''B''
   \<and> historyIndex (handleRedo (handleUndo (run_ops [Push ''A'', Push ''B''] initial_state))) = 1"
  using undo_then_redo[of initial_state "[]"]
    undo_then_redo[of "run_ops [Push ''A'', Push ''B''] initial_state" "[Push ''A'', Push ''B'']"]
  by (simp add: commitToHistory_def Let_def slice0_def run_ops_def initial_state_def
      history_inv_def)

text \<open>
  C8. After any sequence of pushes, generated snapshots, commits, undos, redos and edits
  from the empty history, the cursor is at least -1 and below the length of the log, and
  it is at least 0 whenever the log is not empty.
\<close>

theorem history_invariant: "history_inv (run_ops ops initial_state)"
  by (rule run_ops_inv) (simp add: history_inv_def initial_state_def)

theorem history_invariant_witness:
  "length (history (run_ops [Push ''A'', Edit ''B'', Commit, Undo] initial_state)) > 0
   \<and> historyIndex (run_ops [Push ''A'', Edit ''B'', Commit, Undo] initial_state) = 0
   \<and> history_inv (run_ops [Push ''A'', Edit ''B'', Commit, Undo] initial_state)"
  using history_invariant[of "[Push ''A'', Edit ''B'', Commit, Undo]"]
  by (simp add: commitToHistory_def Let_def slice0_def run_ops_def initial_state_def
      handleUndo_def js_index_def handleCommitSnapshot_def editCode_def trim_def is_space_def)

section \<open>Replacing a literal everywhere\<close>

declare replace_all.simps [simp del]

lemma apartD: "apart q r \<Longrightarrow> suffix t q \<Longrightarrow> t \<noteq> [] \<Longrightarrow> \<not> comparable t r"
  by (auto simp: apart_def list_all_iff)

lemma runs_intoD:
  "\<not> runs_into q p r \<Longrightarrow> suffix t q \<Longrightarrow> t \<noteq> [] \<Longrightarrow> comparable t r \<Longrightarrow> prefix t p"
  by (auto simp: runs_into_def list_ex_iff)

lemma runs_into_tl: "\<not> runs_into (c # q) p r \<Longrightarrow> \<not> runs_into q p r"
  by (simp add: runs_into_def)

lemma replace_all_lit_Nil [simp]: "p \<noteq> [] \<Longrightarrow> replace_all [Lit p] r pre [] = []"
  by (simp add: replace_all.simps)

lemma replace_all_lit_Cons:
  assumes "p \<noteq> []"
  shows "replace_all [Lit p] r pre (c # cs) =
     (if prefix p (c # cs)
      then r @ replace_all [Lit p] r (rev p @ pre) (drop (length p) (c # cs))
      else c # replace_all [Lit p] r (c # pre) cs)"
proof (cases "prefix p (c # cs)")
  case True
  then obtain z where z: "c # cs = p @ z" by (auto simp: prefix_def)
  have "length (drop (length p) (c # cs)) < length (c # cs)"
    using assms by (cases p) auto
  moreover have "take (length (c # cs) - length (drop (length p) (c # cs))) (c # cs) = p"
    unfolding z by simp
  ultimately show ?thesis using True by (simp del: length_drop add: replace_all.simps)
next
  case False
  then show ?thesis by (simp add: replace_all.simps)
qed

lemma prefix_replace_all_lit:
  assumes "p \<noteq> []"
  shows "\<not> runs_into q p r \<Longrightarrow> prefix q (replace_all [Lit p] r pre s) \<Longrightarrow> prefix q s"
proof (induction s arbitrary: q pre)
  case Nil
  then show ?case using assms by simp
next
  case (Cons c cs)
  show ?case
  proof (cases q)
    case Nil
    then show ?thesis by simp
  next
    case (Cons d q')
    show ?thesis
    proof (cases "prefix p (c # cs)")
      case True
      with Cons.prems(2) have "prefix q (r @ replace_all [Lit p] r (rev p @ pre) (drop (length p) (c # cs)))"
        by (simp add: replace_all_lit_Cons[OF assms])
      then have "comparable q r"
        by (auto simp: comparable_def prefix_append)
      then have "prefix q p"
        using runs_intoD[OF Cons.prems(1), of q] Cons by simp
      then show ?thesis using True by (rule prefix_order.trans)
    next
      case False
      with Cons.prems(2) Cons have "d = c" "prefix q' (replace_all [Lit p] r (c # pre) cs)"
        by (simp_all add: replace_all_lit_Cons[OF assms])
      then show ?thesis
        using Cons.IH[of q' "c # pre"] runs_into_tl Cons.prems(1) Cons by auto
    qed
  qed
qed

lemma sublist_replace_all_lit:
  assumes p: "p \<noteq> []" and q: "q \<noteq> []" and qr: "\<not> runs_into q p r" and rq: "apart r q"
  shows "sublist q (replace_all [Lit p] r pre s) \<Longrightarrow>
         \<exists>s1 s2. s = s1 @ s2 \<and> prefix q s2 \<and> \<not> prefix p s2"
proof (induction "length s" arbitrary: s pre rule: less_induct)
  case less
  show ?case
  proof (cases s)
    case Nil
    with less.prems p q show ?thesis by simp
  next
    case (Cons c cs)
    show ?thesis
    proof (cases "prefix p (c # cs)")
      case True
      let ?rest = "drop (length p) (c # cs)"
      let ?out = "replace_all [Lit p] r (rev p @ pre) ?rest"
      from less.prems Cons True have sub: "sublist q (r @ ?out)"
        by (simp add: replace_all_lit_Cons[OF p])
      have no_r: "\<not> sublist q r"
      proof
        assume "sublist q r"
        then obtain a b where "r = a @ q @ b" by (auto simp: sublist_def)
        then have "suffix (q @ b) r" "prefix q (q @ b)" by (auto simp: suffix_def)
        then show False using apartD[OF rq, of "q @ b"] q by (auto simp: comparable_def)
      qed
      have "sublist q ?out"
      proof (rule ccontr)
        assume n: "\<not> sublist q ?out"
        with sublist_append[THEN iffD1, OF sub] no_r
        obtain q1 q2 where split: "q = q1 @ q2" "suffix q1 r" "prefix q2 ?out"
          by auto
        show False
        proof (cases "q1 = []")
          case True
          with split have "prefix q ?out" by simp
          then have "sublist q ?out" by (rule prefix_imp_sublist)
          with n show False by simp
        next
          case False
          then show False using apartD[OF rq, of q1] split by (auto simp: comparable_def)
        qed
      qed
      moreover have "length ?rest < length s"
        using p Cons by (cases p) auto
      ultimately obtain s1 s2 where "?rest = s1 @ s2" "prefix q s2" "\<not> prefix p s2"
        using less.hyps[of ?rest "rev p @ pre"] by blast
      moreover have "s = take (length p) s @ ?rest" using Cons by simp
      ultimately have "s = (take (length p) s @ s1) @ s2 \<and> prefix q s2 \<and> \<not> prefix p s2"
        by simp
      then show ?thesis by blast
    next
      case False
      from less.prems Cons False
      have "sublist q (c # replace_all [Lit p] r (c # pre) cs)"
        by (simp add: replace_all_lit_Cons[OF p])
      then consider (here) "prefix q (c # replace_all [Lit p] r (c # pre) cs)"
        | (later) "sublist q (replace_all [Lit p] r (c # pre) cs)"
        by (auto simp: sublist_Cons_right)
      then show ?thesis
      proof cases
        case here
        then have "prefix q (replace_all [Lit p] r pre (c # cs))"
          using False by (simp add: replace_all_lit_Cons[OF p])
        then have "prefix q (c # cs)"
          using prefix_replace_all_lit[OF p qr] by blast
        then have "s = [] @ s \<and> prefix q s \<and> \<not> prefix p s"
          using Cons False by simp
        then show ?thesis by blast
      next
        case later
        then obtain s1 s2 where "cs = s1 @ s2" "prefix q s2" "\<not> prefix p s2"
          using less.hyps[of cs "c # pre"] Cons by auto
        then have "s = (c # s1) @ s2 \<and> prefix q s2 \<and> \<not> prefix p s2"
          using Cons by simp
        then show ?thesis by blast
      qed
    qed
  qed
qed

lemma replace_all_lit_removes:
  assumes "p \<noteq> []" "\<not> runs_into p p r" "apart r p"
  shows "\<not> sublist p (replace_all [Lit p] r pre s)"
  using sublist_replace_all_lit[OF assms(1) assms(1) assms(2) assms(3)] by blast

lemma replace_all_lit_keeps_absent:
  assumes "p \<noteq> []" "q \<noteq> []" "\<not> runs_into q p r" "apart r q" "\<not> sublist q s"
  shows "\<not> sublist q (replace_all [Lit p] r pre s)"
proof
  assume "sublist q (replace_all [Lit p] r pre s)"
  then obtain s1 s2 where "s = s1 @ s2" "prefix q s2"
    using sublist_replace_all_lit[OF assms(1-4)] by blast
  then have "sublist q s" by (auto simp: sublist_def prefix_def)
  with assms(5) show False by simp
qed

lemma apart_facts:
  "\<not> runs_into ''text-black'' ''text-black'' ''text-slate-50''" "apart ''text-slate-50'' ''text-black''"
  "\<not> runs_into ''text-black'' ''bg-white'' ''bg-slate-900''" "apart ''bg-slate-900'' ''text-black''"
  "\<not> runs_into ''bg-white'' ''bg-white'' ''bg-slate-900''" "apart ''bg-slate-900'' ''bg-white''"
  "\<not> runs_into ''text-white'' ''text-white'' ''text-slate-900''" "apart ''text-slate-900'' ''text-white''"
  "\<not> runs_into ''text-white'' ''bg-slate-900'' ''bg-slate-100''" "apart ''bg-slate-100'' ''text-white''"
  "\<not> runs_into ''bg-slate-900'' ''bg-slate-900'' ''bg-slate-100''" "apart ''bg-slate-100'' ''bg-slate-900''"
  by (simp_all add: apart_def runs_into_def comparable_def)

lemma adaptCodeForTheme_literals:
  "\<not> sublist ''text-black'' (adaptCodeForTheme code True) \<and>
   \<not> sublist ''bg-white'' (adaptCodeForTheme code True) \<and>
   \<not> sublist ''text-white'' (adaptCodeForTheme code False) \<and>
   \<not> sublist ''bg-slate-900'' (adaptCodeForTheme code False)"
proof (cases "code = []")
  case True
  then show ?thesis by (simp add: adaptCodeForTheme_def)
next
  case False
  have a: "\<not> sublist ''text-black'' (replace_all [Lit ''text-black''] ''text-slate-50'' [] code)"
    by (rule replace_all_lit_removes) (simp_all add: apart_facts)
  have b: "\<not> sublist ''text-black'' (replace_all [Lit ''bg-white''] ''bg-slate-900'' []
              (replace_all [Lit ''text-black''] ''text-slate-50'' [] code))"
    by (rule replace_all_lit_keeps_absent[OF _ _ _ _ a]) (simp_all add: apart_facts)
  have c: "\<not> sublist ''bg-white'' (replace_all [Lit ''bg-white''] ''bg-slate-900'' []
              (replace_all [Lit ''text-black''] ''text-slate-50'' [] code))"
    by (rule replace_all_lit_removes) (simp_all add: apart_facts)
  have d: "\<not> sublist ''text-white'' (replace_all [Lit ''text-white''] ''text-slate-900'' [] code)"
    by (rule replace_all_lit_removes) (simp_all add: apart_facts)
  have e: "\<not> sublist ''text-white'' (replace_all [Lit ''bg-slate-900''] ''bg-slate-100'' []
              (replace_all [Lit ''text-white''] ''text-slate-900'' [] code))"
    by (rule replace_all_lit_keeps_absent[OF _ _ _ _ d]) (simp_all add: apart_facts)
  have f: "\<not> sublist ''bg-slate-900'' (replace_all [Lit ''bg-slate-900''] ''bg-slate-100'' []
              (replace_all [Lit ''text-white''] ''text-slate-900'' [] code))"
    by (rule replace_all_lit_removes) (simp_all add: apart_facts)
  from False b c e f show ?thesis by (simp add: adaptCodeForTheme_def)
qed

lemma not_sublist_append:
  assumes "q \<noteq> []" "\<not> sublist q x" "apart t q" "apart q t"
  shows "\<not> sublist q (x @ t)"
proof
  assume "sublist q (x @ t)"
  with sublist_append[of q x t] assms(2)
  consider (tail) "sublist q t" | (split) q1 q2 where "q = q1 @ q2" "suffix q1 x" "prefix q2 t"
    by auto
  then show False
  proof cases
    case tail
    then obtain a b where "t = a @ q @ b" by (auto simp: sublist_def)
    then have "suffix (q @ b) t" "prefix q (q @ b)" by (auto simp: suffix_def)
    then show False using apartD[OF assms(3), of "q @ b"] assms(1) by (auto simp: comparable_def)
  next
    case split
    show False
    proof (cases "q2 = []")
      case True
      with split have "suffix q x" by simp
      then have "sublist q x" by (rule suffix_imp_sublist)
      with assms(2) show False by simp
    next
      case False
      moreover have "suffix q2 q" using split by (simp add: suffix_def)
      ultimately show False using apartD[OF assms(4), of q2] split by (auto simp: comparable_def)
    qed
  qed
qed

text \<open>
  C9, as the claim states it, fails on App.tsx: its \<^verbatim>\<open>previewCode\<close> takes no theme flag
  and runs no theme pass, so the black-text and dark-slate-background literals of the
  input are in the preview under either theme.
\<close>

theorem previewCode_keeps_literals_counterexample:
  "previewCode ''<p className=text-black bg-slate-900/>''
     = ''<p className=text-black bg-slate-900/>\<newline>render(<GeneratedComponent />);''"
  by code_simp

text \<open>
  C9, amended to the build whose preview runs \<^verbatim>\<open>adaptCodeForTheme\<close>: for every input the
  preview and the adapted code under the dark flag hold neither \<^verbatim>\<open>text-black\<close> nor
  \<^verbatim>\<open>bg-white\<close>, and under the light flag neither \<^verbatim>\<open>text-white\<close> nor \<^verbatim>\<open>bg-slate-900\<close>.
\<close>

theorem theme_literals_substituted:
  "\<not> sublist ''text-black'' (previewCode_theme editable True) \<and>
   \<not> sublist ''bg-white'' (previewCode_theme editable True) \<and>
   \<not> sublist ''text-white'' (previewCode_theme editable False) \<and>
   \<not> sublist ''bg-slate-900'' (previewCode_theme editable False) \<and>
   \<not> sublist ''text-black'' (adaptCodeForTheme code True) \<and>
   \<not> sublist ''bg-white'' (adaptCodeForTheme code True) \<and>
   \<not> sublist ''text-white'' (adaptCodeForTheme code False) \<and>
   \<not> sublist ''bg-slate-900'' (adaptCodeForTheme code False)"
proof -
  have preview: "\<not> sublist q (previewCode_theme editable d)"
    if "q \<noteq> []" "\<not> sublist q (adaptCodeForTheme (normalizeGeneratedCode_fence editable) d)"
      "apart ([newline, newline] @ ''<GeneratedComponent />'') q"
      "apart q ([newline, newline] @ ''<GeneratedComponent />'')" for q d
  proof (cases "trim editable = []")
    case True
    then show ?thesis using that(1) by (simp add: previewCode_theme_def)
  next
    case False
    then have "previewCode_theme editable d
        = adaptCodeForTheme (normalizeGeneratedCode_fence editable) d
            @ ([newline, newline] @ ''<GeneratedComponent />'')"
      by (simp add: previewCode_theme_def)
    then show ?thesis using not_sublist_append[OF that] by simp
  qed
  note inner = adaptCodeForTheme_literals[of "normalizeGeneratedCode_fence editable"]
  have "\<not> sublist ''text-black'' (previewCode_theme editable True)"
    by (rule preview) (use inner in \<open>simp_all add: apart_def comparable_def newline_def\<close>)
  moreover have "\<not> sublist ''bg-white'' (previewCode_theme editable True)"
    by (rule preview) (use inner in \<open>simp_all add: apart_def comparable_def newline_def\<close>)
  moreover have "\<not> sublist ''text-white'' (previewCode_theme editable False)"
    by (rule preview) (use inner in \<open>simp_all add: apart_def comparable_def newline_def\<close>)
  moreover have "\<not> sublist ''bg-slate-900'' (previewCode_theme editable False)"
    by (rule preview) (use inner in \<open>simp_all add: apart_def comparable_def newline_def\<close>)
  ultimately show ?thesis
    using adaptCodeForTheme_literals[of code] by blast
qed

section \<open>Fence extraction\<close>

lemma dropWhile_append_stop: "\<not> P y \<Longrightarrow> dropWhile P (xs @ y # ys) = dropWhile P xs @ y # ys"
  by (induction xs) auto

lemma prefix_append_long: "length q \<le> length x \<Longrightarrow> prefix q (x @ s) = prefix q x"
  by (auto simp: prefix_append)

lemma find_fence_at_fence [simp]: "find_fence (fence @ rest) = Some ([], rest)"
  by (simp add: fence_def)

lemma find_fence_before:
  "\<not> sublist fence (p @ ''``'') \<Longrightarrow> find_fence (p @ fence @ rest) = Some (p, rest)"
proof (induction p)
  case Nil
  then show ?case by simp
next
  case (Cons c p)
  have tl: "\<not> sublist fence (p @ ''``'')"
    using Cons.prems by (simp add: sublist_Cons_right)
  have "\<not> prefix fence ((c # p) @ ''``'')"
    using Cons.prems by (auto dest: prefix_imp_sublist)
  moreover have "prefix fence ((c # p) @ fence @ rest) = prefix fence ((c # p) @ ''``'')"
  proof (cases p)
    case Nil
    then show ?thesis by (simp add: fence_def)
  next
    case (Cons a p1)
    then show ?thesis by (cases p1) (simp_all add: fence_def)
  qed
  ultimately have "\<not> prefix fence (c # p @ fence @ rest)" by simp
  then show ?case using Cons.IH[OF tl] by simp
qed

lemma find_fence_closing:
  "\<exists>g r r'. find_fence (b @ fence @ s) = Some (g, r) \<and> find_fence (b @ fence) = Some (g, r')"
proof (induction b)
  case Nil
  show ?case using find_fence_at_fence[of s] find_fence_at_fence[of "[]"] by simp
next
  case (Cons c b)
  have "prefix fence ((c # b) @ fence @ s) = prefix fence ((c # b) @ fence)"
    using prefix_append_long[of fence "(c # b) @ fence" s] by (simp add: fence_def)
  then show ?case using Cons by auto
qed

lemma not_fence_char: "\<not> is_alpha (CHR 0x60)" "\<not> is_space (CHR 0x60)"
  by (simp_all add: is_alpha_def is_space_def)

lemma fenceMatch_first_region:
  assumes "\<not> sublist fence (p @ ''``'')"
  shows "fenceMatch (p @ fence @ body @ fence @ s) = fenceMatch (fence @ body @ fence)"
    and "fenceMatch (fence @ body @ fence) \<noteq> None"
proof -
  let ?b = "dropWhile is_space (dropWhile is_alpha body)"
  have skip: "dropWhile is_space (dropWhile is_alpha (body @ fence @ t)) = ?b @ fence @ t" for t
    by (simp add: fence_def dropWhile_append_stop not_fence_char)
  obtain g r r' where g: "find_fence (?b @ fence @ s) = Some (g, r)"
      "find_fence (?b @ fence) = Some (g, r')"
    using find_fence_closing[of ?b s] by blast
  have 1: "fenceMatch (p @ fence @ body @ fence @ s) = Some g"
    using find_fence_before[OF assms, of "body @ fence @ s"] skip[of s] g
    by (simp add: fenceMatch_def)
  have 2: "fenceMatch (fence @ body @ fence) = Some g"
    using skip[of "[]"] g by (simp add: fenceMatch_def)
  show "fenceMatch (p @ fence @ body @ fence @ s) = fenceMatch (fence @ body @ fence)"
    using 1 2 by simp
  show "fenceMatch (fence @ body @ fence) \<noteq> None"
    using 2 by simp
qed

text \<open>
  C3, as the claim states it, fails on App.tsx: its \<^verbatim>\<open>normalizeGeneratedCode\<close> has no fence
  extraction, it only drops the lines that start with a fence marker. On the input of the
  specification the text before the fence stays in the output, so two inputs that differ
  in the prefix alone normalise differently.
\<close>

theorem normalize_keeps_prefix_counterexample:
  "normalizeGeneratedCode ''prefix ```js\<newline>CODE\<newline>``` suffix'' = ''prefix ```js\<newline>CODE''
   \<and> normalizeGeneratedCode ''other ```js\<newline>CODE\<newline>``` suffix'' = ''other ```js\<newline>CODE''"
proof -
  have "normalizeGeneratedCode ''prefix ```js\<newline>CODE\<newline>``` suffix'' = ''prefix ```js\<newline>CODE''"
    by code_simp
  moreover
  have "normalizeGeneratedCode ''other ```js\<newline>CODE\<newline>``` suffix'' = ''other ```js\<newline>CODE''"
    by code_simp
  ultimately show ?thesis by (rule conjI)
qed

text \<open>
  C3, amended to the build that extracts the fence (src/unnamed/part_000): when the
  opening fence is the first triple backtick of the text, the output is that of the fenced
  region alone, whatever stands before the opening fence and after the closing one. Two
  inputs that differ only there normalise to the same output.
\<close>

theorem first_fence_only:
  assumes "\<not> sublist fence (p @ ''``'')" and "\<not> sublist fence (p' @ ''``'')"
  shows "normalizeGeneratedCode_fence (p @ fence @ body @ fence @ s)
           = normalizeGeneratedCode_fence (p' @ fence @ body @ fence @ s')
       \<and> normalizeGeneratedCode_fence (p @ fence @ body @ fence @ s)
           = normalizeGeneratedCode_fence (fence @ body @ fence)"
proof -
  obtain g where g: "fenceMatch (fence @ body @ fence) = Some g"
    using fenceMatch_first_region(2)[OF assms(1), of body] by auto
  have norm: "normalizeGeneratedCode_fence (x @ fence @ body @ fence @ t)
      = trim (strip_exports (join_nl (filter keep_line_fence (split_nl g))))"
    if "\<not> sublist fence (x @ ''``'')" for x t
  proof -
    have "fenceMatch (x @ fence @ body @ fence @ t) = Some g"
      using fenceMatch_first_region(1)[OF that, of body t] g by simp
    moreover have "x @ fence @ body @ fence @ t \<noteq> []"
      by (simp add: fence_def)
    ultimately show ?thesis
      by (simp only: normalizeGeneratedCode_fence_def Let_def if_False option.case)
  qed
  have "\<not> sublist fence ([] @ ''``'')"
    by (simp add: fence_def sublist_Cons_right)
  from norm[OF this, of "[]"] norm[OF assms(1), of s] norm[OF assms(2), of s']
  show ?thesis by simp
qed

theorem first_fence_only_witness:
  "\<not> sublist fence (''prefix '' @ ''``'') \<and> \<not> sublist fence (''other '' @ ''``'')
   \<and> normalizeGeneratedCode_fence (''prefix '' @ fence @ ''js\<newline>CODE\<newline>'' @ fence @ '' suffix'')
       = normalizeGeneratedCode_fence (''other '' @ fence @ ''js\<newline>CODE\<newline>'' @ fence @ ''!'')
   \<and> normalizeGeneratedCode_fence (''prefix '' @ fence @ ''js\<newline>CODE\<newline>'' @ fence @ '' suffix'')
       = ''CODE''"
proof -
  have h1: "\<not> sublist fence (''prefix '' @ ''``'')"
    by (simp add: fence_def sublist_Cons_right)
  have h2: "\<not> sublist fence (''other '' @ ''``'')"
    by (simp add: fence_def sublist_Cons_right)
  have v: "normalizeGeneratedCode_fence (fence @ ''js\<newline>CODE\<newline>'' @ fence) = ''CODE''"
    by code_simp
  note t = first_fence_only[OF h1 h2, of "''js\<newline>CODE\<newline>''" "'' suffix''" "''!''"]
  from t have a: "normalizeGeneratedCode_fence (''prefix '' @ fence @ ''js\<newline>CODE\<newline>'' @ fence @ '' suffix'')
       = normalizeGeneratedCode_fence (''other '' @ fence @ ''js\<newline>CODE\<newline>'' @ fence @ ''!'')"
    by (rule conjunct1)
  from t have "normalizeGeneratedCode_fence (''prefix '' @ fence @ ''js\<newline>CODE\<newline>'' @ fence @ '' suffix'')
       = normalizeGeneratedCode_fence (fence @ ''js\<newline>CODE\<newline>'' @ fence)"
    by (rule conjunct2)
  from this v have c: "normalizeGeneratedCode_fence (''prefix '' @ fence @ ''js\<newline>CODE\<newline>'' @ fence @ '' suffix'')
       = ''CODE''"
    by (rule trans)
  from h1 h2 a c show ?thesis by (intro conjI)
qed

section \<open>Hook qualification\<close>


lemma word_after_hookish: "hookish h \<Longrightarrow> prefix h s \<Longrightarrow> word_after s"
  by (cases h; cases s) (auto simp: hookish_def word_after_def)

lemma word_before_rev_hookish: "hookish h \<Longrightarrow> word_before (rev h @ pre)"
proof -
  assume h: "hookish h"
  then obtain w c where "h = w @ [c]" by (metis hookish_def rev_exhaust)
  then show ?thesis using h by (simp add: hookish_def word_before_def)
qed

lemma re_match_hook:
  assumes "hookish h"
  shows "re_match (re_hook h) pre s =
     (if \<not> prefix (rev ''React.'') pre \<and> \<not> word_before pre \<and> prefix h s \<and>
         \<not> word_after (drop (length h) s)
      then Some (drop (length h) s) else None)"
  using word_after_hookish[OF assms, of s] word_before_rev_hookish[OF assms, of pre]
  by (auto simp: re_hook_def)

lemma hook_at_iff:
  assumes "hookish h"
  shows "hook_at h pre s \<longleftrightarrow>
     \<not> prefix (rev ''React.'') pre \<and> \<not> word_before pre \<and> prefix h s \<and>
     \<not> word_after (drop (length h) s)"
  by (simp add: hook_at_def re_match_hook[OF assms])



lemma hook_at_Nil [simp]: "hookish h \<Longrightarrow> \<not> hook_at h pre []"
  by (simp add: hook_at_iff hookish_def)


































section \<open>Import lines and default exports\<close>





















































end
